theory Spec2Isabelle
  imports Complex_Main "HOL-Library.Log_Nat"
begin

section \<open>Data model of build/pipeline.go\<close>

text \<open>
  Go's \<open>error\<close> interface value is an \<open>error option\<close>: \<open>None\<close> is \<open>nil\<close>.
  \<open>ErrTerm\<close>, \<open>OomError\<close> and \<open>ExitError\<close> are the error values the pipeline itself
  builds; \<open>EngineError\<close> stands for any other error value an engine call hands back.
\<close>

datatype error = ErrTerm | OomError string | ExitError string int | EngineError string

type_synonym result = "error option"

text \<open>The fields of \<open>yaml.Container\<close> that the pipeline reads, and the image.\<close>

record container =
  Name :: string
  Image :: string
  Detached :: bool

text \<open>The terminal state handed back by \<open>ContainerWait\<close>.\<close>

record State =
  ExitCode :: int
  OOMKilled :: bool

text \<open>
  A record of the output stream. \<open>Time\<close> is an \<open>int64\<close> and \<open>Pos\<close> a Go \<open>int\<close>;
  both are unbounded integers here: \<open>Pos\<close> would wrap only after \<open>2^63\<close> lines of
  one step.
\<close>

record Line =
  Proc :: string
  Time :: int
  Pos :: int
  Out :: string

text \<open>
  An \<open>element\<close> of the linked list lives at an address (its index in \<open>elems\<close>);
  a pointer is a \<open>nat option\<close> with \<open>None\<close> for \<open>nil\<close>.
\<close>

record element =
  Container :: container
  next_el :: "nat option"

text \<open>
  What the forwarding goroutine observes of an opened log stream: the reading of the
  clock at \<open>now := time.Now().UTC()\<close>, and the lines \<open>scanner.Scan()\<close> yields, each
  with the reading of the clock when its \<open>Line\<close> is built. With them comes \<open>begun\<close>,
  the reading of the clock when \<open>exec\<close> was entered for the step, which the code never
  reads. Readings are nanoseconds.
\<close>

record reader =
  begun :: int
  opened :: int
  scanned :: "(int \<times> string) list"

text \<open>
  A channel is the sequence of values delivered on it so far and whether it has been
  closed. A send on a closed channel panics, and so does closing a channel twice.
\<close>

record 'a chan =
  sent :: "'a list"
  is_closed :: bool

text \<open>The \<open>Engine\<close> interface; \<open>'e\<close> is the state of the container runtime behind it.\<close>

record 'e Engine =
  ContainerStart :: "container \<Rightarrow> 'e \<Rightarrow> (error + string) \<times> 'e"
  ContainerLogs :: "string \<Rightarrow> 'e \<Rightarrow> (error + reader) \<times> 'e"
  ContainerWait :: "string \<Rightarrow> 'e \<Rightarrow> (error + State) \<times> 'e"
  ContainerRemove :: "string \<Rightarrow> 'e \<Rightarrow> result \<times> 'e"

text \<open>The calls made on the engine, with what each returned, in the order made.\<close>

datatype call =
  CStart container "error + string"
| CLogs string "error + reader"
| CWait string "error + State"
| CRemove string result

text \<open>
  The bodies of the \<open>go func() { ... }()\<close> statements of the file:
  \<open>ExecBody\<close> is the one of \<open>Exec\<close>, \<open>SendDone e\<close> is \<open>p.done <- e\<close> (of \<open>Stop\<close>,
  \<open>step\<close> and \<open>close\<close>), \<open>MoveNext\<close> is the second one of \<open>step\<close>, and
  \<open>Forward name c\<close> is the log forwarding of \<open>exec\<close>.
\<close>

datatype task = ExecBody | SendDone result | MoveNext | Forward string container

text \<open>
  The \<open>Pipeline\<close>, with the fields the file reads or writes (\<open>conf\<close>, \<open>volumes\<close> and
  \<open>networks\<close> are never touched). \<open>elems\<close> holds the elements of the list, \<open>engine\<close>
  is the state of the runtime behind \<open>p.engine\<close>, \<open>calls\<close> is the record of the calls
  made on it, and \<open>gos\<close> is the pool of goroutines started and not yet run.
\<close>

record 'e Pipeline =
  elems :: "element list"
  head :: "nat option"
  tail :: "nat option"
  pipe :: "Line chan"
  next_chan :: "result chan"
  done_chan :: "result chan"
  err :: result
  containers :: "string list"
  engine :: 'e
  calls :: "call list"
  gos :: "task list"

section \<open>Channels, goroutines and engine calls\<close>

text \<open>
  A goroutine started by \<open>go\<close> waits in the pool \<open>gos\<close> until the scheduler picks it, in
  any order; its body then runs as one step. A send is the delivery of the value: a
  goroutine still waiting in the pool has not delivered yet. The fields of the pipeline
  are written by one goroutine at a time, as the callers of \<open>Exec\<close> and \<open>Skip\<close> are
  required to keep one step in flight.
\<close>

definition send :: "'a \<Rightarrow> 'a chan \<Rightarrow> 'a chan option" where
  "send v ch = (if is_closed ch then None else Some (ch\<lparr>sent := sent ch @ [v]\<rparr>))"

definition close_chan :: "'a chan \<Rightarrow> 'a chan option" where
  "close_chan ch = (if is_closed ch then None else Some (ch\<lparr>is_closed := True\<rparr>))"

text \<open>\<open>go t\<close> starts a goroutine: it joins the pool and runs when the scheduler picks it.\<close>

definition go :: "task \<Rightarrow> 'e Pipeline \<Rightarrow> 'e Pipeline" where
  "go t p = p\<lparr>gos := gos p @ [t]\<rparr>"

definition deref :: "element list \<Rightarrow> nat option \<Rightarrow> element option" where
  "deref els ptr =
     (case ptr of None \<Rightarrow> None
      | Some a \<Rightarrow> if a < length els then Some (els ! a) else None)"

definition engine_start ::
  "'e Engine \<Rightarrow> container \<Rightarrow> 'e Pipeline \<Rightarrow> (error + string) \<times> 'e Pipeline" where
  "engine_start E c p =
     (case ContainerStart E c (engine p) of
        (r, s) \<Rightarrow> (r, p\<lparr>engine := s, calls := calls p @ [CStart c r]\<rparr>))"

definition engine_logs ::
  "'e Engine \<Rightarrow> string \<Rightarrow> 'e Pipeline \<Rightarrow> (error + reader) \<times> 'e Pipeline" where
  "engine_logs E name p =
     (case ContainerLogs E name (engine p) of
        (r, s) \<Rightarrow> (r, p\<lparr>engine := s, calls := calls p @ [CLogs name r]\<rparr>))"

definition engine_wait ::
  "'e Engine \<Rightarrow> string \<Rightarrow> 'e Pipeline \<Rightarrow> (error + State) \<times> 'e Pipeline" where
  "engine_wait E name p =
     (case ContainerWait E name (engine p) of
        (r, s) \<Rightarrow> (r, p\<lparr>engine := s, calls := calls p @ [CWait name r]\<rparr>))"

definition engine_remove ::
  "'e Engine \<Rightarrow> string \<Rightarrow> 'e Pipeline \<Rightarrow> result \<times> 'e Pipeline" where
  "engine_remove E name p =
     (case ContainerRemove E name (engine p) of
        (r, s) \<Rightarrow> (r, p\<lparr>engine := s, calls := calls p @ [CRemove name r]\<rparr>))"

section \<open>The pipeline\<close>

text \<open>\<open>Err\<close>, lines 39-41.\<close>

definition Err :: "'e Pipeline \<Rightarrow> result" where
  "Err p = err p"

text \<open>\<open>step\<close>, lines 106-117: the comparison is made by the caller, the rest in a goroutine.\<close>

definition step :: "'e Pipeline \<Rightarrow> 'e Pipeline" where
  "step p = (if head p = tail p then go (SendDone None) p else go MoveNext p)"

text \<open>\<open>Skip\<close>, lines 60-62.\<close>

definition Skip :: "'e Pipeline \<Rightarrow> 'e Pipeline" where
  "Skip p = step p"

text \<open>\<open>Stop\<close>, lines 80-84.\<close>

definition Stop :: "'e Pipeline \<Rightarrow> 'e Pipeline" where
  "Stop p = go (SendDone (Some ErrTerm)) p"

text \<open>\<open>Exec\<close>, lines 49-57.\<close>

definition Exec :: "'e Pipeline \<Rightarrow> 'e Pipeline" where
  "Exec p = go ExecBody p"

text \<open>
  The doubles of IEEE 754 (binary64) among the rationals. \<open>expo x\<close> is the exponent of
  \<open>x > 0\<close>, the integer part of its logarithm to base 2, and \<open>round_even\<close> is the nearest
  integer, the even one of two equally near. \<open>float64 x\<close> is the double nearest to \<open>x\<close>,
  as the conversions and the arithmetic of Go round, for \<open>x\<close> in the range of the normal
  doubles; the values met here are zero or between \<open>1e-9\<close> and \<open>1e10\<close> in size.
\<close>

definition round_even :: "rat \<Rightarrow> int" where
  "round_even x =
     (let k = \<lfloor>x\<rfloor>; r = x - of_int k
      in if r < 1 / 2 \<or> (r = 1 / 2 \<and> even k) then k else k + 1)"

definition expo :: "rat \<Rightarrow> int" where
  "expo x = (if 1 \<le> x then bitlen \<lfloor>x\<rfloor> - 1 else - bitlen (\<lceil>1 / x\<rceil> - 1))"

definition float64 :: "rat \<Rightarrow> rat" where
  "float64 x =
     (if x = 0 then 0
      else let q = 2 powi (expo \<bar>x\<bar> - 52)
           in sgn x * (of_int (round_even (\<bar>x\<bar> / q)) * q))"

text \<open>
  \<open>Duration.Seconds\<close> of Go's package \<open>time\<close>, on a duration of \<open>d\<close> nanoseconds:
  \<^verbatim>\<open>sec := d / Second; nsec := d % Second; return float64(sec) + float64(nsec)/1e9\<close>.
  Go's division of integers rounds towards zero and the remainder has the sign of \<open>d\<close>.
\<close>

definition Seconds :: "int \<Rightarrow> rat" where
  "Seconds d =
     (let sec = sgn d * (\<bar>d\<bar> div 1000000000); nsec = sgn d * (\<bar>d\<bar> mod 1000000000)
      in float64 (float64 (of_int sec) + float64 (float64 (of_int nsec) / 1000000000)))"

text \<open>
  \<open>int64(time.Since(now).Seconds())\<close>, line 146, on a duration of \<open>d\<close> nanoseconds; the
  conversion of a \<open>float64\<close> to \<open>int64\<close> drops the fraction.
\<close>

definition seconds :: "int \<Rightarrow> int" where
  "seconds d = (let s = Seconds d in if 0 \<le> s then \<lfloor>s\<rfloor> else \<lceil>s\<rceil>)"

text \<open>
  The time field as the specification words it, to compare with the one of the code: the
  whole seconds that have elapsed at the reading \<open>t\<close> since the step of the stream \<open>rc\<close>
  started.
\<close>

definition Time_since_step_start :: "reader \<Rightarrow> int \<Rightarrow> int" where
  "Time_since_step_start rc t = (t - begun rc) div 1000000000"

text \<open>The \<open>for scanner.Scan()\<close> loop, lines 143-151.\<close>

fun scan_loop ::
  "container \<Rightarrow> int \<Rightarrow> int \<Rightarrow> (int \<times> string) list \<Rightarrow> Line chan \<Rightarrow> Line chan option" where
  "scan_loop c now num [] ch = Some ch"
| "scan_loop c now num ((t, out) # rest) ch =
     (case send \<lparr>Proc = Name c, Time = seconds (t - now), Pos = num, Out = out\<rparr> ch of
        None \<Rightarrow> None
      | Some ch' \<Rightarrow> scan_loop c now (num + 1) rest ch')"

text \<open>The forwarding goroutine, lines 133-152.\<close>

definition forward :: "'e Engine \<Rightarrow> string \<Rightarrow> container \<Rightarrow> 'e Pipeline \<Rightarrow> 'e Pipeline option" where
  "forward E name c p =
     (case engine_logs E name p of
        (Inl rerr, p1) \<Rightarrow> Some p1
      | (Inr rc, p1) \<Rightarrow>
          (case scan_loop c (opened rc) 0 (scanned rc) (pipe p1) of
             None \<Rightarrow> None
           | Some ch \<Rightarrow> Some (p1\<lparr>pipe := ch\<rparr>)))"

text \<open>\<open>exec\<close>, lines 126-169.\<close>

definition exec :: "'e Engine \<Rightarrow> container \<Rightarrow> 'e Pipeline \<Rightarrow> result \<times> 'e Pipeline" where
  "exec E c p =
     (case engine_start E c p of
        (Inl e, p1) \<Rightarrow> (Some e, p1)
      | (Inr name, p1) \<Rightarrow>
          (let p2 = go (Forward name c) (p1\<lparr>containers := containers p1 @ [name]\<rparr>)
           in if Detached c then (None, p2)
              else (case engine_wait E name p2 of
                      (Inl e, p3) \<Rightarrow> (Some e, p3)
                    | (Inr state, p3) \<Rightarrow>
                        if OOMKilled state then (Some (OomError (Name c)), p3)
                        else if ExitCode state \<noteq> 0
                          then (Some (ExitError (Name c) (ExitCode state)), p3)
                        else (None, p3))))"

text \<open>The goroutine of \<open>Exec\<close>, lines 51-55; \<open>p.head.Container\<close> panics on a nil head.\<close>

definition exec_body :: "'e Engine \<Rightarrow> 'e Pipeline \<Rightarrow> 'e Pipeline option" where
  "exec_body E p =
     (case deref (elems p) (head p) of
        None \<Rightarrow> None
      | Some el \<Rightarrow>
          (case exec E (Container el) p of
             (e, p1) \<Rightarrow> Some (step (if e \<noteq> None then p1\<lparr>err := e\<rparr> else p1))))"

text \<open>The second goroutine of \<open>step\<close>, lines 113-114.\<close>

definition move_next :: "'e Pipeline \<Rightarrow> 'e Pipeline option" where
  "move_next p =
     (case deref (elems p) (head p) of
        None \<Rightarrow> None
      | Some el \<Rightarrow>
          (case send None (next_chan p) of
             None \<Rightarrow> None
           | Some ch \<Rightarrow> Some (p\<lparr>head := next_el el, next_chan := ch\<rparr>)))"

definition send_done :: "result \<Rightarrow> 'e Pipeline \<Rightarrow> 'e Pipeline option" where
  "send_done e p =
     (case send e (done_chan p) of
        None \<Rightarrow> None
      | Some ch \<Rightarrow> Some (p\<lparr>done_chan := ch\<rparr>))"

fun run :: "'e Engine \<Rightarrow> task \<Rightarrow> 'e Pipeline \<Rightarrow> 'e Pipeline option" where
  "run E ExecBody p = exec_body E p"
| "run E (SendDone e) p = send_done e p"
| "run E MoveNext p = move_next p"
| "run E (Forward name c) p = forward E name c p"

text \<open>The scheduler runs the \<open>i\<close>-th goroutine of the pool; \<open>None\<close> is a panic.\<close>

definition run_go :: "'e Engine \<Rightarrow> nat \<Rightarrow> 'e Pipeline \<Rightarrow> 'e Pipeline option" where
  "run_go E i p =
     (if i < length (gos p)
      then run E (gos p ! i) (p\<lparr>gos := take i (gos p) @ drop (Suc i) (gos p)\<rparr>)
      else Some p)"

text \<open>\<open>Teardown\<close>, lines 92-103.\<close>

fun remove_all :: "'e Engine \<Rightarrow> string list \<Rightarrow> 'e Pipeline \<Rightarrow> 'e Pipeline" where
  "remove_all E [] p = p"
| "remove_all E (name # names) p = remove_all E names (snd (engine_remove E name p))"

definition Teardown :: "'e Engine \<Rightarrow> 'e Pipeline \<Rightarrow> 'e Pipeline option" where
  "Teardown E p =
     (let p1 = remove_all E (containers p) p
      in case close_chan (next_chan p1) of
           None \<Rightarrow> None
         | Some n \<Rightarrow>
             (case close_chan (done_chan p1) of
                None \<Rightarrow> None
              | Some d \<Rightarrow> Some (p1\<lparr>next_chan := n, done_chan := d\<rparr>)))"

section \<open>Driving the pipeline\<close>

text \<open>The identifiers that successful start calls returned, in the order of the calls.\<close>

fun started :: "call list \<Rightarrow> string list" where
  "started [] = []"
| "started (CStart c (Inr name) # cs) = name # started cs"
| "started (_ # cs) = started cs"

text \<open>
  What can happen to a pipeline: its owner calls \<open>Exec\<close>, \<open>Skip\<close>, \<open>Stop\<close> or
  \<open>Teardown\<close>, or the scheduler runs one of the goroutines of the pool.
\<close>

datatype action = DoExec | DoSkip | DoStop | DoTeardown | Sched nat

fun act :: "'e Engine \<Rightarrow> action \<Rightarrow> 'e Pipeline \<Rightarrow> 'e Pipeline option" where
  "act E DoExec p = Some (Exec p)"
| "act E DoSkip p = Some (Skip p)"
| "act E DoStop p = Some (Stop p)"
| "act E DoTeardown p = Teardown E p"
| "act E (Sched i) p = run_go E i p"

fun drive :: "'e Engine \<Rightarrow> action list \<Rightarrow> 'e Pipeline \<Rightarrow> 'e Pipeline option" where
  "drive E [] p = Some p"
| "drive E (a # as) p = (case act E a p of None \<Rightarrow> None | Some p' \<Rightarrow> drive E as p')"

section \<open>A small engine and pipelines to run\<close>

text \<open>
  An engine whose state counts the calls made on it. The image \<open>missing\<close> cannot be
  started; the container of step \<open>oom\<close> is OOM-killed, the one of \<open>test\<close> exits
  with code 1, the wait for the one of \<open>lost\<close> fails; the log stream of \<open>quiet\<close>
  cannot be opened and the one of \<open>silent\<close> is empty; removing \<open>id-test\<close> fails.
  The stream of \<open>late\<close> opens five seconds after the step started and yields a line
  0.4 seconds later; the stream of \<open>slow\<close> opens as the step starts and yields a line
  one nanosecond short of \<open>2^24 + 1\<close> seconds later.
\<close>

definition late_stream :: reader where
  "late_stream = \<lparr>begun = 0, opened = 5000000000, scanned = [(5400000000, ''ready'')]\<rparr>"

definition slow_stream :: reader where
  "slow_stream = \<lparr>begun = 0, opened = 0, scanned = [(16777216999999999, ''done'')]\<rparr>"

definition demo_engine :: "nat Engine" where
  "demo_engine =
     \<lparr>ContainerStart = (\<lambda>c n.
        (if Image c = ''missing'' then Inl (EngineError ''no such image'')
         else Inr (''id-'' @ Name c), n + 1)),
      ContainerLogs = (\<lambda>name n.
        (if name = ''id-quiet'' then Inl (EngineError ''no log stream'')
         else if name = ''id-silent''
           then Inr \<lparr>begun = 0, opened = 1000000000, scanned = []\<rparr>
         else if name = ''id-late'' then Inr late_stream
         else if name = ''id-slow'' then Inr slow_stream
         else Inr \<lparr>begun = 0, opened = 1000000000,
                   scanned = [(1500000000, ''hello''), (3200000000, ''world'')]\<rparr>, n + 1)),
      ContainerWait = (\<lambda>name n.
        (if name = ''id-oom'' then Inr \<lparr>ExitCode = 137, OOMKilled = True\<rparr>
         else if name = ''id-test'' then Inr \<lparr>ExitCode = 1, OOMKilled = False\<rparr>
         else if name = ''id-lost'' then Inl (EngineError ''connection lost'')
         else Inr \<lparr>ExitCode = 0, OOMKilled = False\<rparr>, n + 1)),
      ContainerRemove = (\<lambda>name n.
        (if name = ''id-test'' then Some (EngineError ''container busy'') else None, n + 1))\<rparr>"

definition plain :: "string \<Rightarrow> container" where
  "plain n = \<lparr>Name = n, Image = ''golang'', Detached = False\<rparr>"

definition sidecar :: "string \<Rightarrow> container" where
  "sidecar n = \<lparr>Name = n, Image = ''postgres'', Detached = True\<rparr>"

definition unstartable :: "string \<Rightarrow> container" where
  "unstartable n = \<lparr>Name = n, Image = ''missing'', Detached = False\<rparr>"

definition open_chan :: "'a chan" where
  "open_chan = \<lparr>sent = [], is_closed = False\<rparr>"

text \<open>A pipeline over the given elements that has not run yet: the head is the first one.\<close>

definition idle :: "element list \<Rightarrow> nat Pipeline" where
  "idle els =
     \<lparr>elems = els, head = Some 0, tail = Some (length els - 1),
      pipe = open_chan, next_chan = open_chan, done_chan = open_chan,
      err = None, containers = [], engine = 0, calls = [], gos = []\<rparr>"

definition one_step :: "container \<Rightarrow> nat Pipeline" where
  "one_step c = idle [\<lparr>Container = c, next_el = None\<rparr>]"

definition two_steps :: "container \<Rightarrow> container \<Rightarrow> nat Pipeline" where
  "two_steps c d = idle [\<lparr>Container = c, next_el = Some 1\<rparr>, \<lparr>Container = d, next_el = None\<rparr>]"

text \<open>
  A run of two steps: the detached \<open>db\<close> is started and the pipeline advances, then
  \<open>test\<close> runs and exits with code 1, and the terminal signal is delivered.
\<close>

definition ran_both :: "nat Pipeline" where
  "ran_both =
     the (drive demo_engine [DoExec, Sched 0, Sched 1, DoExec, Sched 1, Sched 2]
            (two_steps (sidecar ''db'') (plain ''test'')))"

section \<open>Facts about the operations\<close>

lemmas demo_defs =
  demo_engine_def plain_def sidecar_def unstartable_def open_chan_def idle_def one_step_def
  two_steps_def

lemmas op_defs =
  Exec_def Skip_def Stop_def step_def go_def run_go_def exec_body_def deref_def exec_def
  engine_start_def engine_wait_def engine_logs_def engine_remove_def move_next_def
  send_done_def send_def close_chan_def forward_def Teardown_def Err_def Let_def

lemma ran_both_run:
  "drive demo_engine [DoExec, Sched 0, Sched 1, DoExec, Sched 1, Sched 2]
     (two_steps (sidecar ''db'') (plain ''test'')) = Some ran_both"
  by (simp add: ran_both_def demo_defs op_defs)

lemma ran_both_fields:
  "containers ran_both = [''id-db'', ''id-test'']"
  "calls ran_both =
     [CStart (sidecar ''db'') (Inr ''id-db''), CStart (plain ''test'') (Inr ''id-test''),
      CWait ''id-test'' (Inr \<lparr>ExitCode = 1, OOMKilled = False\<rparr>)]"
  "engine ran_both = 3"
  "err ran_both = Some (ExitError ''test'' 1)"
  "next_chan ran_both = \<lparr>sent = [None], is_closed = False\<rparr>"
  "done_chan ran_both = \<lparr>sent = [None], is_closed = False\<rparr>"
  "pipe ran_both = \<lparr>sent = [], is_closed = False\<rparr>"
  by (simp_all add: ran_both_def demo_defs op_defs)

lemma run_go_task:
  "i < length (gos q) \<Longrightarrow>
   run_go E i q = run E (gos q ! i) (q\<lparr>gos := take i (gos q) @ drop (Suc i) (gos q)\<rparr>)"
  by (simp add: run_go_def)

lemma send_done_open:
  "\<not> is_closed (done_chan q) \<Longrightarrow>
   send_done e q = Some (q\<lparr>done_chan := (done_chan q)\<lparr>sent := sent (done_chan q) @ [e]\<rparr>\<rparr>)"
  by (simp add: send_done_def send_def)

lemma move_next_open:
  "deref (elems q) (head q) = Some el \<Longrightarrow> \<not> is_closed (next_chan q) \<Longrightarrow>
   move_next q =
     Some (q\<lparr>head := next_el el, next_chan := (next_chan q)\<lparr>sent := sent (next_chan q) @ [None]\<rparr>\<rparr>)"
  by (simp add: move_next_def send_def)

text \<open>What \<open>exec\<close> leaves alone: the list, the position, the stored error, the channels.\<close>

lemma exec_frame:
  "exec E c p = (r, p1) \<Longrightarrow>
   elems p1 = elems p \<and> head p1 = head p \<and> tail p1 = tail p \<and> err p1 = err p
   \<and> pipe p1 = pipe p \<and> next_chan p1 = next_chan p \<and> done_chan p1 = done_chan p"
  by (auto simp: exec_def engine_start_def engine_wait_def go_def Let_def
           split: prod.splits sum.splits if_splits)

lemma exec_ignores_logs: "exec (E\<lparr>ContainerLogs := lg\<rparr>) d q = exec E d q"
proof -
  have a: "engine_start (E\<lparr>ContainerLogs := lg\<rparr>) = engine_start E"
    by (simp add: engine_start_def fun_eq_iff)
  have b: "engine_wait (E\<lparr>ContainerLogs := lg\<rparr>) = engine_wait E"
    by (simp add: engine_wait_def fun_eq_iff)
  show ?thesis unfolding exec_def a b by (rule refl)
qed

text \<open>The loop sends one record per line, numbered from \<open>num\<close> on.\<close>

lemma scan_loop_open:
  "\<not> is_closed ch \<Longrightarrow>
   scan_loop c now num ls ch =
     Some (ch\<lparr>sent := sent ch @
       map (\<lambda>i. \<lparr>Proc = Name c, Time = seconds (fst (ls ! i) - now),
                  Pos = num + int i, Out = snd (ls ! i)\<rparr>) [0..<length ls]\<rparr>)"
proof (induction ls arbitrary: num ch)
  case Nil
  then show ?case by simp
next
  case (Cons l ls)
  obtain t out where l: "l = (t, out)" by (cases l)
  let ?ch = "ch\<lparr>sent := sent ch @
               [\<lparr>Proc = Name c, Time = seconds (t - now), Pos = num, Out = out\<rparr>]\<rparr>"
  have "\<not> is_closed ?ch" using Cons.prems by simp
  from Cons.IH [OF this, of "num + 1"] Cons.prems
  show ?case
    by (simp add: l send_def map_upt_Suc add.assoc del: upt_Suc)
qed

lemma scan_loop_flag:
  "scan_loop c now num ls ch = Some ch' \<Longrightarrow> is_closed ch' = is_closed ch"
proof (induction ls arbitrary: num ch)
  case Nil
  then show ?case by simp
next
  case (Cons l ls)
  obtain t out where l: "l = (t, out)" by (cases l)
  from Cons.prems l obtain ch1 where
    s: "send \<lparr>Proc = Name c, Time = seconds (t - now), Pos = num, Out = out\<rparr> ch = Some ch1"
    and r: "scan_loop c now (num + 1) ls ch1 = Some ch'"
    by (auto split: option.splits)
  from s have "is_closed ch1 = is_closed ch"
    by (auto simp: send_def split: if_splits)
  with Cons.IH [OF r] show ?case by simp
qed

text \<open>Rounding to an integer, against integer bounds.\<close>

lemma round_even_ge: "of_int n \<le> x \<Longrightarrow> n \<le> round_even x"
proof -
  assume "of_int n \<le> x"
  then have "n \<le> \<lfloor>x\<rfloor>" by (simp add: le_floor_iff)
  then show ?thesis by (simp add: round_even_def Let_def)
qed

lemma round_even_le: "x \<le> of_int n \<Longrightarrow> round_even x \<le> n"
proof (cases "x = of_int n")
  case True
  then show ?thesis by (simp add: round_even_def)
next
  case False
  assume "x \<le> of_int n"
  with False have "x < of_int n" by simp
  then have "\<lfloor>x\<rfloor> < n" by (simp add: floor_less_iff)
  then show ?thesis by (simp add: round_even_def Let_def)
qed

lemma round_even_less: "x < of_int n - 1 / 2 \<Longrightarrow> round_even x \<le> n - 1"
proof -
  assume a: "x < of_int n - 1 / 2"
  then have "x < of_int n" by simp
  then have f: "\<lfloor>x\<rfloor> \<le> n - 1" by (simp add: floor_less_iff)
  show ?thesis
  proof (cases "\<lfloor>x\<rfloor> = n - 1")
    case True
    with a have "x - of_int \<lfloor>x\<rfloor> < 1 / 2" by simp
    with True show ?thesis by (simp add: round_even_def Let_def)
  next
    case False
    with f have "\<lfloor>x\<rfloor> + 1 \<le> n - 1" by simp
    then show ?thesis by (simp add: round_even_def Let_def)
  qed
qed

lemma expo_le: "0 < x \<Longrightarrow> 2 powi (expo x) \<le> x"
proof (cases "1 \<le> x")
  case True
  then have p: "0 < \<lfloor>x\<rfloor>" by simp
  from bitlen_bounds [OF p] have "2 ^ nat (bitlen \<lfloor>x\<rfloor> - 1) \<le> \<lfloor>x\<rfloor>" by simp
  then have "(2::rat) ^ nat (bitlen \<lfloor>x\<rfloor> - 1) \<le> of_int \<lfloor>x\<rfloor>"
    by (metis of_int_le_iff of_int_numeral of_int_power)
  also have "\<dots> \<le> x" by simp
  finally have "(2::rat) ^ nat (bitlen \<lfloor>x\<rfloor> - 1) \<le> x" .
  moreover have "1 \<le> bitlen \<lfloor>x\<rfloor>" using p by (simp add: bitlen_alt_def)
  ultimately show ?thesis using True by (simp add: expo_def power_int_def)
next
  case False
  assume pos: "0 < x"
  let ?n = "\<lceil>1 / x\<rceil>"
  let ?b = "bitlen (?n - 1)"
  from False pos have "1 < 1 / x" by simp
  then have "1 < ?n" by (simp add: less_ceiling_iff)
  then have p: "0 < ?n - 1" by simp
  from bitlen_bounds [OF p] have "?n - 1 < 2 ^ nat ?b" by simp
  then have "?n \<le> 2 ^ nat ?b" by simp
  then have "(of_int ?n :: rat) \<le> 2 ^ nat ?b"
    by (metis of_int_le_iff of_int_numeral of_int_power)
  moreover have "1 / x \<le> of_int ?n" by simp
  ultimately have "1 / x \<le> 2 ^ nat ?b" by linarith
  with pos have "1 / 2 ^ nat ?b \<le> x"
    by (simp add: field_simps)
  moreover have "(2::rat) powi (- ?b) = 1 / 2 ^ nat ?b"
    using bitlen_nonneg [of "?n - 1"] by (simp add: power_int_minus power_int_def field_simps)
  ultimately show ?thesis
    using False by (simp add: expo_def)
qed

lemma expo_less: "0 < x \<Longrightarrow> x < 2 ^ k \<Longrightarrow> expo x < int k"
proof -
  assume "0 < x" and "x < 2 ^ k"
  with expo_le [of x] have "(2::rat) powi (expo x) < 2 powi (int k)" by simp
  then show ?thesis
    by (rule power_int_le_imp_less_exp [rotated]) simp_all
qed

text \<open>A dyadic number with few enough bits after the point is on the grid of \<open>x\<close>.\<close>

lemma on_grid:
  assumes "0 < x" and "x < 2 ^ k" and "j + k \<le> 53"
  shows "\<exists>m. (of_int a :: rat) / 2 ^ j = of_int m * 2 powi (expo x - 52)"
proof -
  from expo_less [OF assms(1,2)] assms(3) have e: "0 \<le> 52 - expo x - int j" by simp
  let ?s = "nat (52 - expo x - int j)"
  have "expo x - 52 = - int (?s + j)" using e by simp
  then have "(2::rat) powi (expo x - 52) = inverse (2 powi (int (?s + j)))"
    by (simp only: power_int_minus)
  also have "\<dots> = 1 / (2 ^ ?s * 2 ^ j)"
    by (simp only: power_int_of_nat power_add inverse_eq_divide)
  finally have "(of_int a :: rat) / 2 ^ j = of_int (a * 2 ^ ?s) * 2 powi (expo x - 52)"
    by simp
  then show ?thesis by blast
qed

lemma float64_pos:
  "0 < x \<Longrightarrow> float64 x = of_int (round_even (x / 2 powi (expo x - 52))) * 2 powi (expo x - 52)"
  by (simp add: float64_def Let_def)

lemma float64_ge:
  assumes "0 < x" and "M = of_int m * 2 powi (expo x - 52)" and "M \<le> x"
  shows "M \<le> float64 x"
proof -
  let ?q = "(2::rat) powi (expo x - 52)"
  have q: "0 < ?q" by simp
  from assms(2,3) q have "of_int m \<le> x / ?q" by (simp add: field_simps)
  then have "m \<le> round_even (x / ?q)" by (rule round_even_ge)
  then have "of_int m * ?q \<le> of_int (round_even (x / ?q)) * ?q"
    using q by simp
  then show ?thesis by (simp add: float64_pos [OF assms(1)] assms(2))
qed

lemma float64_le:
  assumes "0 < x" and "B = of_int m * 2 powi (expo x - 52)" and "x \<le> B"
  shows "float64 x \<le> B"
proof -
  let ?q = "(2::rat) powi (expo x - 52)"
  have q: "0 < ?q" by simp
  from assms(2,3) q have "x / ?q \<le> of_int m" by (simp add: field_simps)
  then have "round_even (x / ?q) \<le> m" by (rule round_even_le)
  then have "of_int (round_even (x / ?q)) * ?q \<le> of_int m * ?q"
    using q by simp
  then show ?thesis by (simp add: float64_pos [OF assms(1)] assms(2))
qed

lemma float64_less:
  assumes "0 < x" and "N = of_int n * 2 powi (expo x - 52)"
    and "x < N - 2 powi (expo x - 52) / 2"
  shows "float64 x < N"
proof -
  let ?q = "(2::rat) powi (expo x - 52)"
  have q: "0 < ?q" by simp
  from assms(2,3) q have "x / ?q < of_int n - 1 / 2" by (simp add: field_simps)
  then have "round_even (x / ?q) \<le> n - 1" by (rule round_even_less)
  then have "round_even (x / ?q) < n" by simp
  then have "of_int (round_even (x / ?q)) * ?q < of_int n * ?q"
    using q by simp
  then show ?thesis by (simp add: float64_pos [OF assms(1)] assms(2))
qed

text \<open>An integer below \<open>2^53\<close> is a double.\<close>

lemma float64_of_int:
  assumes "0 \<le> n" and "n < 2 ^ 53"
  shows "float64 (of_int n) = of_int n"
proof (cases "n = 0")
  case True
  then show ?thesis by (simp add: float64_def)
next
  case False
  with assms have pos: "(0::rat) < of_int n" by simp
  from assms(2) have lt: "(of_int n :: rat) < 2 ^ 53"
    by (metis of_int_less_iff of_int_numeral of_int_power)
  from on_grid [OF pos lt, of 0 n] obtain m where
    m: "(of_int n :: rat) = of_int m * 2 powi (expo (of_int n) - 52)" by auto
  from float64_ge [OF pos m] float64_le [OF pos m] show ?thesis by simp
qed


text \<open>The quotient of the nanoseconds by \<open>1e9\<close> rounds to a double well below 1.\<close>

lemma float64_fraction:
  assumes "0 \<le> n" and "n < 1000000000"
  shows "0 \<le> float64 (of_int n / 1000000000)
       \<and> float64 (of_int n / 1000000000) \<le> 17179869167 / 17179869184"
proof (cases "n = 0")
  case True
  then show ?thesis by (simp add: float64_def)
next
  case False
  let ?x = "(of_int n :: rat) / 1000000000"
  from False assms have pos: "0 < ?x" by simp
  from assms have lt: "?x < 2 ^ 0" by simp
  from assms have "n \<le> 999999999" by simp
  then have "(of_int n :: rat) \<le> 999999999" by (metis of_int_le_iff of_int_numeral)
  then have le: "?x \<le> 17179869167 / 2 ^ 34" by simp
  from on_grid [OF pos lt, of 34 17179869167] obtain m where
    m: "(17179869167 :: rat) / 2 ^ 34 = of_int m * 2 powi (expo ?x - 52)" by auto
  from on_grid [OF pos lt, of 0 0] obtain z where
    z: "(0 :: rat) = of_int z * 2 powi (expo ?x - 52)" by auto
  from float64_le [OF pos m le] float64_ge [OF pos z] pos
  show ?thesis by simp
qed

text \<open>Below \<open>2^24\<close> seconds the conversion gives the whole seconds.\<close>

lemma seconds_exact:
  assumes "0 \<le> d" and "d < 16777216000000000"
  shows "seconds d = d div 1000000000"
proof -
  let ?sec = "d div 1000000000" and ?nsec = "d mod 1000000000"
  let ?c = "float64 (of_int ?nsec / 1000000000)"
  let ?y = "of_int ?sec + ?c"
  have sg: "sgn d * (\<bar>d\<bar> div 1000000000) = ?sec" "sgn d * (\<bar>d\<bar> mod 1000000000) = ?nsec"
    using assms(1) by (cases "d = 0"; simp)+
  have sec: "0 \<le> ?sec" "?sec < 16777216" using assms by simp_all
  have nsec: "0 \<le> ?nsec" "?nsec < 1000000000" by simp_all
  have a: "float64 (of_int ?sec) = of_int ?sec"
    using sec by (intro float64_of_int) simp_all
  have b: "float64 (of_int ?nsec) = of_int ?nsec"
    using nsec by (intro float64_of_int) simp_all
  from float64_fraction [OF nsec] have c: "0 \<le> ?c" "?c \<le> 17179869167 / 17179869184"
    by simp_all
  have S: "Seconds d = float64 ?y"
    by (simp add: Seconds_def Let_def sg a b)
  have "of_int ?sec \<le> float64 ?y \<and> float64 ?y < of_int ?sec + 1"
  proof (cases "?y = 0")
    case True
    moreover have "(0::rat) \<le> of_int ?sec" using sec(1) by simp
    ultimately have "(of_int ?sec :: rat) = 0" using c(1) by linarith
    with True show ?thesis by (simp add: float64_def)
  next
    case False
    moreover have "(0::rat) \<le> of_int ?sec" using sec(1) by simp
    ultimately have pos: "0 < ?y" using c(1) by linarith
    have "?sec \<le> 16777215" using sec(2) by simp
    then have "(of_int ?sec :: rat) \<le> of_int 16777215" by (simp only: of_int_le_iff)
    with c(2) have lt: "?y < 2 ^ 24" by simp
    from on_grid [OF pos lt, of 0 ?sec] obtain m where
      m: "(of_int ?sec :: rat) = of_int m * 2 powi (expo ?y - 52)" by auto
    from on_grid [OF pos lt, of 0 "?sec + 1"] obtain n where
      n: "(of_int ?sec :: rat) + 1 = of_int n * 2 powi (expo ?y - 52)" by auto
    from expo_less [OF pos lt] have "expo ?y - 52 \<le> - 29" by simp
    then have "(2::rat) powi (expo ?y - 52) \<le> 2 powi (- 29)"
      by (intro power_int_increasing) simp_all
    then have q: "(2::rat) powi (expo ?y - 52) / 2 \<le> 1 / 2 ^ 30"
      by (simp add: power_int_minus field_simps)
    have "?y \<le> of_int ?sec + 17179869167 / 17179869184" using c(2) by simp
    with q have "?y < (of_int ?sec + 1) - 2 powi (expo ?y - 52) / 2" by simp
    from float64_less [OF pos n this] float64_ge [OF pos m] c(1)
    show ?thesis by simp
  qed
  then have bounds: "of_int ?sec \<le> float64 ?y" "float64 ?y < of_int ?sec + 1"
    by simp_all
  then have fl: "\<lfloor>float64 ?y\<rfloor> = ?sec" by (rule floor_unique)
  have "(0::rat) \<le> of_int ?sec" using sec(1) by simp
  with bounds(1) have "0 \<le> float64 ?y" by linarith
  with fl show ?thesis by (simp add: seconds_def S Let_def)
qed


text \<open>\<open>expo\<close> is the exponent, and \<open>float64\<close> gives a nearest point of the grid.\<close>

lemma expo_upper: "0 < x \<Longrightarrow> x < 2 powi (expo x + 1)"
proof (cases "1 \<le> x")
  case True
  then have p: "0 < \<lfloor>x\<rfloor>" by simp
  from bitlen_bounds [OF p] have "\<lfloor>x\<rfloor> + 1 \<le> 2 ^ nat (bitlen \<lfloor>x\<rfloor>)" by simp
  then have "(of_int (\<lfloor>x\<rfloor> + 1) :: rat) \<le> 2 ^ nat (bitlen \<lfloor>x\<rfloor>)"
    by (metis of_int_le_iff of_int_numeral of_int_power)
  moreover have "x < of_int (\<lfloor>x\<rfloor> + 1)" by linarith
  ultimately have "x < 2 ^ nat (bitlen \<lfloor>x\<rfloor>)" by linarith
  then show ?thesis
    using True bitlen_nonneg [of "\<lfloor>x\<rfloor>"] by (simp add: expo_def power_int_def)
next
  case False
  assume pos: "0 < x"
  let ?n = "\<lceil>1 / x\<rceil>"
  let ?b = "bitlen (?n - 1)"
  from False pos have "1 < 1 / x" by simp
  then have "1 < ?n" by (simp add: less_ceiling_iff)
  then have p: "0 < ?n - 1" by simp
  then have b1: "1 \<le> ?b" by (simp add: bitlen_alt_def)
  from bitlen_bounds [OF p] have "2 ^ nat (?b - 1) \<le> ?n - 1" by simp
  then have "(2::rat) ^ nat (?b - 1) \<le> of_int (?n - 1)"
    by (metis of_int_le_iff of_int_numeral of_int_power)
  moreover have "of_int (?n - 1) < 1 / x" by linarith
  ultimately have "(2::rat) ^ nat (?b - 1) < 1 / x" by linarith
  with pos have "x < 1 / 2 ^ nat (?b - 1)"
    by (simp add: field_simps)
  moreover have "(2::rat) powi (- ?b + 1) = 1 / 2 ^ nat (?b - 1)"
  proof -
    have "- ?b + 1 = - int (nat (?b - 1))" using b1 by simp
    then have "(2::rat) powi (- ?b + 1) = inverse (2 powi int (nat (?b - 1)))"
      by (simp only: power_int_minus)
    then show ?thesis by (simp only: power_int_of_nat inverse_eq_divide)
  qed
  ultimately show ?thesis
    using False by (simp add: expo_def)
qed

lemma round_even_nearest: "\<bar>of_int (round_even x) - x\<bar> \<le> 1 / 2"
proof -
  have "of_int \<lfloor>x\<rfloor> \<le> x" "x < of_int \<lfloor>x\<rfloor> + 1" by linarith+
  then show ?thesis
    by (auto simp: round_even_def Let_def abs_le_iff)
qed

lemma float64_nearest:
  assumes "0 < x"
  shows "\<bar>float64 x - x\<bar> \<le> 2 powi (expo x - 52) / 2"
proof -
  let ?q = "(2::rat) powi (expo x - 52)"
  have q: "0 < ?q" by simp
  let ?r = "of_int (round_even (x / ?q)) :: rat"
  have "?r * ?q - x = (?r - x / ?q) * ?q"
    using q by (simp add: field_simps)
  then have "\<bar>?r * ?q - x\<bar> = \<bar>?r - x / ?q\<bar> * \<bar>?q\<bar>"
    by (simp only: abs_mult)
  then have "\<bar>float64 x - x\<bar> = \<bar>?r - x / ?q\<bar> * ?q"
    using q by (simp add: float64_pos [OF assms])
  also have "\<dots> \<le> 1 / 2 * ?q"
    using q round_even_nearest [of "x / ?q"] by (intro mult_right_mono) simp_all
  finally show ?thesis by simp
qed

text \<open>From \<open>2^24\<close> seconds on the sum can round up to the next whole second.\<close>

lemma seconds_rounds_up: "seconds 16777216999999999 = 16777217"
  by code_simp

section \<open>A failing step\<close>

text \<open>
  C1, as the code has it. A step whose execution resolves with a failure \<open>e\<close> (a start
  error, an OOM failure, a non-zero exit or a wait error) has that failure stored as the
  pipeline's error, the one \<open>Err\<close> returns, and the advance transition then runs as it
  does after a success: on the tail a nil error is delivered on the done signal,
  otherwise the head moves to its successor and a nil error is delivered on the next
  signal. The head is not moved and nothing is delivered before that goroutine runs.
\<close>

theorem failed_step_is_recorded_then_pipeline_advances:
  assumes "deref (elems p) (head p) = Some el"
    and "exec E (Container el) p = (Some e, p1)"
  shows "\<exists>p'. exec_body E p = Some p' \<and> Err p' = Some e \<and> head p' = head p
         \<and> done_chan p' = done_chan p \<and> next_chan p' = next_chan p
         \<and> gos p' = gos p1 @ [if head p = tail p then SendDone None else MoveNext]
         \<and> (head p = tail p \<and> \<not> is_closed (done_chan p) \<longrightarrow>
              (\<exists>p''. run_go E (length (gos p1)) p' = Some p''
                 \<and> sent (done_chan p'') = sent (done_chan p) @ [None]
                 \<and> sent (next_chan p'') = sent (next_chan p)
                 \<and> head p'' = head p \<and> Err p'' = Some e))
         \<and> (head p \<noteq> tail p \<and> \<not> is_closed (next_chan p) \<longrightarrow>
              (\<exists>p''. run_go E (length (gos p1)) p' = Some p''
                 \<and> sent (next_chan p'') = sent (next_chan p) @ [None]
                 \<and> sent (done_chan p'') = sent (done_chan p)
                 \<and> head p'' = next_el el \<and> Err p'' = Some e))"
proof -
  from exec_frame [OF assms(2)] have fr:
    "elems p1 = elems p" "head p1 = head p" "tail p1 = tail p"
    "next_chan p1 = next_chan p" "done_chan p1 = done_chan p"
    by simp_all
  show ?thesis
    using assms fr
    by (simp add: exec_body_def step_def go_def Err_def run_go_def send_done_def
          move_next_def send_def)
qed

theorem failed_step_is_recorded_then_pipeline_advances_witness:
  "map_option Err (exec_body demo_engine (two_steps (unstartable ''build'') (plain ''deploy'')))
     = Some (Some (EngineError ''no such image''))
 \<and> map_option gos (exec_body demo_engine (two_steps (unstartable ''build'') (plain ''deploy'')))
     = Some [MoveNext]
 \<and> map_option Err (exec_body demo_engine (one_step (plain ''oom''))) = Some (Some (OomError ''oom''))
 \<and> map_option gos (exec_body demo_engine (one_step (plain ''oom'')))
     = Some [Forward ''id-oom'' (plain ''oom''), SendDone None]"
  using
    failed_step_is_recorded_then_pipeline_advances
      [where p = "two_steps (unstartable ''build'') (plain ''deploy'')" and E = demo_engine
         and el = "\<lparr>Container = unstartable ''build'', next_el = Some 1\<rparr>"
         and e = "EngineError ''no such image''"
         and ?p1.0 = "(two_steps (unstartable ''build'') (plain ''deploy''))
                \<lparr>engine := 1, calls := [CStart (unstartable ''build'')
                                          (Inl (EngineError ''no such image''))]\<rparr>"]
    failed_step_is_recorded_then_pipeline_advances
      [where p = "one_step (plain ''oom'')" and E = demo_engine
         and el = "\<lparr>Container = plain ''oom'', next_el = None\<rparr>"
         and e = "OomError ''oom''"
         and ?p1.0 = "(one_step (plain ''oom''))
                \<lparr>containers := [''id-oom''], engine := 2,
                 calls := [CStart (plain ''oom'') (Inr ''id-oom''),
                           CWait ''id-oom'' (Inr \<lparr>ExitCode = 137, OOMKilled = True\<rparr>)],
                 gos := [Forward ''id-oom'' (plain ''oom'')]\<rparr>"]
  by (simp add: demo_defs op_defs)

text \<open>
  C1, as the claim has it, fails. Of two steps the first cannot be started: once its
  goroutines have run, nothing has been delivered on the done signal, a nil error has
  been delivered on the next signal, the head is the second step and the failure is
  stored; a further \<open>Exec\<close> starts the second step. And when the only step exits with
  code 1, what the done signal delivers is nil, not the exit failure.
\<close>

theorem failure_not_delivered_on_done_counterexample:
  "map_option (sent \<circ> done_chan)
     (drive demo_engine [DoExec, Sched 0, Sched 0]
        (two_steps (unstartable ''build'') (plain ''deploy''))) = Some []
 \<and> map_option (sent \<circ> next_chan)
     (drive demo_engine [DoExec, Sched 0, Sched 0]
        (two_steps (unstartable ''build'') (plain ''deploy''))) = Some [None]
 \<and> map_option head
     (drive demo_engine [DoExec, Sched 0, Sched 0]
        (two_steps (unstartable ''build'') (plain ''deploy''))) = Some (Some 1)
 \<and> map_option Err
     (drive demo_engine [DoExec, Sched 0, Sched 0]
        (two_steps (unstartable ''build'') (plain ''deploy'')))
      = Some (Some (EngineError ''no such image''))
 \<and> map_option calls
     (drive demo_engine [DoExec, Sched 0, Sched 0, DoExec, Sched 0]
        (two_steps (unstartable ''build'') (plain ''deploy'')))
      = Some [CStart (unstartable ''build'') (Inl (EngineError ''no such image'')),
              CStart (plain ''deploy'') (Inr ''id-deploy''),
              CWait ''id-deploy'' (Inr \<lparr>ExitCode = 0, OOMKilled = False\<rparr>)]
 \<and> map_option (sent \<circ> done_chan)
     (drive demo_engine [DoExec, Sched 0, Sched 1] (one_step (plain ''test''))) = Some [None]
 \<and> map_option Err
     (drive demo_engine [DoExec, Sched 0, Sched 1] (one_step (plain ''test'')))
      = Some (Some (ExitError ''test'' 1))"
  by (simp add: demo_defs op_defs)

section \<open>Log forwarding\<close>

text \<open>
  C2, as the claim has it, fails on the time field. The detached step \<open>late\<close> is run; its
  stream opens five seconds after the step started and yields a line 0.4 seconds later:
  the record's time is 0, and 5 whole seconds have elapsed since the step started. The
  step \<open>slow\<close> is run; its stream opens as the step starts and yields a line after
  16777216.999999999 seconds: the record's time is 16777217, one more than the whole
  seconds elapsed.
\<close>

theorem time_not_since_step_start_counterexample:
  "map_option (map Time \<circ> sent \<circ> pipe)
     (drive demo_engine [DoExec, Sched 0, Sched 0] (one_step (sidecar ''late''))) = Some [0]
 \<and> map (Time_since_step_start late_stream \<circ> fst) (scanned late_stream) = [5]
 \<and> map_option (map Time \<circ> sent \<circ> pipe)
     (drive demo_engine [DoExec, Sched 0, Sched 0] (one_step (plain ''slow''))) = Some [16777217]
 \<and> map (Time_since_step_start slow_stream \<circ> fst) (scanned slow_stream) = [16777216]"
proof -
  have "seconds 400000000 = 0"
    using seconds_exact [of 400000000] by simp
  then show ?thesis
    by (simp add: demo_defs op_defs late_stream_def slow_stream_def Time_since_step_start_def
          seconds_rounds_up)
qed

text \<open>
  C2, as the code has it. The forwarding goroutine that \<open>exec\<close> starts for a step
  carries the step's container. When the scheduler runs it and the stream opens, it
  sends one record for each line the scanner yields, in order and nothing else: the
  record of line \<open>j\<close> (counted from zero) carries the step's name, the position \<open>j\<close> and
  the line's text. Its time is the conversion of line 146 of the duration from the
  instant \<open>now\<close>, which the goroutine read once the stream had opened, to the instant the
  record is built; for a duration below \<open>2^24\<close> seconds that is the whole seconds of the
  duration, rounded down.
\<close>

theorem forward_one_record_per_line:
  assumes "i < length (gos q)" and "gos q ! i = Forward name c"
    and "ContainerLogs E name (engine q) = (Inr rc, s1)"
    and "\<not> is_closed (pipe q)"
  shows "(\<exists>q' recs. run_go E i q = Some q'
          \<and> sent (pipe q') = sent (pipe q) @ recs
          \<and> length recs = length (scanned rc)
          \<and> (\<forall>j < length (scanned rc).
               Proc (recs ! j) = Name c
             \<and> Pos (recs ! j) = int j
             \<and> Out (recs ! j) = snd (scanned rc ! j)
             \<and> Time (recs ! j) = seconds (fst (scanned rc ! j) - opened rc)
             \<and> (opened rc \<le> fst (scanned rc ! j)
                  \<and> fst (scanned rc ! j) - opened rc < 16777216000000000 \<longrightarrow>
                  Time (recs ! j) = (fst (scanned rc ! j) - opened rc) div 1000000000)))
       \<and> (ContainerStart E d (engine p) = (Inr n, s) \<longrightarrow>
            Forward n d \<in> set (gos (snd (exec E d p))))"
proof -
  have launched: "ContainerStart E d (engine p) = (Inr n, s) \<longrightarrow>
      Forward n d \<in> set (gos (snd (exec E d p)))"
    by (auto simp: exec_def engine_start_def engine_wait_def go_def Let_def
             split: prod.splits sum.splits)
  have "\<exists>q' recs. run_go E i q = Some q'
          \<and> sent (pipe q') = sent (pipe q) @ recs
          \<and> length recs = length (scanned rc)
          \<and> (\<forall>j < length (scanned rc).
               Proc (recs ! j) = Name c
             \<and> Pos (recs ! j) = int j
             \<and> Out (recs ! j) = snd (scanned rc ! j)
             \<and> Time (recs ! j) = seconds (fst (scanned rc ! j) - opened rc)
             \<and> (opened rc \<le> fst (scanned rc ! j)
                  \<and> fst (scanned rc ! j) - opened rc < 16777216000000000 \<longrightarrow>
                  Time (recs ! j) = (fst (scanned rc ! j) - opened rc) div 1000000000))"
    using assms
    by (simp add: run_go_def forward_def engine_logs_def scan_loop_open seconds_exact)
  with launched show ?thesis by blast
qed

theorem forward_one_record_per_line_witness:
  "gos (snd (exec demo_engine (plain ''build'') (one_step (plain ''build''))))
     = [Forward ''id-build'' (plain ''build'')]
 \<and> map_option (sent \<circ> pipe)
     (run_go demo_engine 0 (snd (exec demo_engine (plain ''build'') (one_step (plain ''build'')))))
     = Some [\<lparr>Proc = ''build'', Time = 0, Pos = 0, Out = ''hello''\<rparr>,
             \<lparr>Proc = ''build'', Time = 2, Pos = 1, Out = ''world''\<rparr>]"
proof -
  let ?q = "snd (exec demo_engine (plain ''build'') (one_step (plain ''build'')))"
  have q: "?q = (one_step (plain ''build''))
             \<lparr>containers := [''id-build''], engine := 2,
              calls := [CStart (plain ''build'') (Inr ''id-build''),
                        CWait ''id-build'' (Inr \<lparr>ExitCode = 0, OOMKilled = False\<rparr>)],
              gos := [Forward ''id-build'' (plain ''build'')]\<rparr>"
    by (simp add: demo_defs exec_def engine_start_def engine_wait_def go_def)
  have h1: "0 < length (gos ?q)" and h2: "gos ?q ! 0 = Forward ''id-build'' (plain ''build'')"
    and h4: "\<not> is_closed (pipe ?q)"
    by (simp_all add: q) (simp add: demo_defs)
  have h3: "ContainerLogs demo_engine ''id-build'' (engine ?q)
      = (Inr \<lparr>begun = 0, opened = 1000000000,
               scanned = [(1500000000, ''hello''), (3200000000, ''world'')]\<rparr>, 3)"
    by (simp add: q) (simp add: demo_engine_def)
  have h5: "ContainerStart demo_engine (plain ''build'') (engine (one_step (plain ''build'')))
      = (Inr ''id-build'', 1)"
    by (simp add: demo_defs)
  let ?rc = "\<lparr>begun = 0, opened = 1000000000,
               scanned = [(1500000000, ''hello''), (3200000000, ''world'')]\<rparr>"
  note t = forward_one_record_per_line
             [OF h1 h2 h3 h4, where d = "plain ''build''" and p = "one_step (plain ''build'')"
                and n = "''id-build''" and s = 1]
  from t [THEN conjunct1] obtain q' recs where
    f: "run_go demo_engine 0 ?q = Some q'"
    and s: "sent (pipe q') = sent (pipe ?q) @ recs"
    and l0: "length recs = length (scanned ?rc)"
    and r0: "\<forall>j < length (scanned ?rc).
               Proc (recs ! j) = Name (plain ''build'')
             \<and> Pos (recs ! j) = int j
             \<and> Out (recs ! j) = snd (scanned ?rc ! j)
             \<and> Time (recs ! j) = seconds (fst (scanned ?rc ! j) - opened ?rc)
             \<and> (opened ?rc \<le> fst (scanned ?rc ! j)
                  \<and> fst (scanned ?rc ! j) - opened ?rc < 16777216000000000 \<longrightarrow>
                  Time (recs ! j) = (fst (scanned ?rc ! j) - opened ?rc) div 1000000000)"
    by blast
  from l0 have l: "length recs = 2" by simp
  from l obtain a b where ab: "recs = [a, b]"
    by (cases recs; cases "tl recs") auto
  from r0 [rule_format, of 0] ab
  have a: "Proc a = ''build'' \<and> Pos a = 0 \<and> Out a = ''hello'' \<and> Time a = 0"
    by (simp add: plain_def)
  from r0 [rule_format, of 1] ab
  have b: "Proc b = ''build'' \<and> Pos b = 1 \<and> Out b = ''world'' \<and> Time b = 2"
    by (simp add: plain_def)
  from a b
  have "a = \<lparr>Proc = ''build'', Time = 0, Pos = 0, Out = ''hello''\<rparr>"
       "b = \<lparr>Proc = ''build'', Time = 2, Pos = 1, Out = ''world''\<rparr>"
    by simp_all
  moreover have "sent (pipe ?q) = []" by (simp add: q) (simp add: demo_defs)
  moreover from t [THEN conjunct2] h5
  have "Forward ''id-build'' (plain ''build'') \<in> set (gos ?q)" by blast
  ultimately show ?thesis using f s ab by (simp add: q)
qed

section \<open>The advance transition\<close>

text \<open>
  C3. \<open>step\<close> compares head and tail and starts a goroutine; the call itself changes
  nothing else. When head and tail are equal the goroutine delivers a nil error on the
  done signal and the head stays where it is; otherwise the goroutine moves the head to
  its successor and delivers a nil error on the next signal. The goroutine does so in
  whatever state \<open>q\<close> the pipeline is in when the scheduler picks it.
\<close>

theorem step_advance_transition:
  "(head p = tail p \<longrightarrow> step p = p\<lparr>gos := gos p @ [SendDone None]\<rparr>)
 \<and> (head p \<noteq> tail p \<longrightarrow> step p = p\<lparr>gos := gos p @ [MoveNext]\<rparr>)
 \<and> (i < length (gos q) \<and> gos q ! i = SendDone None \<and> \<not> is_closed (done_chan q) \<longrightarrow>
      run_go E i q =
        Some (q\<lparr>gos := take i (gos q) @ drop (Suc i) (gos q),
                done_chan := (done_chan q)\<lparr>sent := sent (done_chan q) @ [None]\<rparr>\<rparr>))
 \<and> (i < length (gos q) \<and> gos q ! i = MoveNext \<and> deref (elems q) (head q) = Some el
      \<and> \<not> is_closed (next_chan q) \<longrightarrow>
      run_go E i q =
        Some (q\<lparr>gos := take i (gos q) @ drop (Suc i) (gos q), head := next_el el,
                next_chan := (next_chan q)\<lparr>sent := sent (next_chan q) @ [None]\<rparr>\<rparr>))"
  by (simp add: step_def go_def run_go_task send_done_open move_next_open)

theorem step_advance_transition_witness:
  "step (one_step (plain ''build'')) = (one_step (plain ''build''))\<lparr>gos := [SendDone None]\<rparr>
 \<and> run_go demo_engine 0 (step (one_step (plain ''build'')))
     = Some ((one_step (plain ''build''))\<lparr>done_chan := \<lparr>sent = [None], is_closed = False\<rparr>\<rparr>)
 \<and> step (two_steps (plain ''build'') (plain ''test''))
     = (two_steps (plain ''build'') (plain ''test''))\<lparr>gos := [MoveNext]\<rparr>
 \<and> run_go demo_engine 0 (step (two_steps (plain ''build'') (plain ''test'')))
     = Some ((two_steps (plain ''build'') (plain ''test''))
               \<lparr>head := Some 1, next_chan := \<lparr>sent = [None], is_closed = False\<rparr>\<rparr>)"
  using
    step_advance_transition
      [where p = "one_step (plain ''build'')" and q = "step (one_step (plain ''build''))"
         and i = 0 and E = demo_engine]
    step_advance_transition
      [where p = "two_steps (plain ''build'') (plain ''test'')"
         and q = "step (two_steps (plain ''build'') (plain ''test''))"
         and i = 0 and E = demo_engine
         and el = "\<lparr>Container = plain ''build'', next_el = Some 1\<rparr>"]
  by (simp add: demo_defs step_def go_def deref_def)

section \<open>Failure classification\<close>

text \<open>
  C4. A step that is not detached, whose container started and whose wait call returned
  a terminal state: an OOM-killed container gives the OOM failure naming the step, any
  other non-zero exit code gives the exit failure with the step's name and that code,
  and a zero exit code gives success. An OOM-killed container never gives an exit
  failure. An error of the wait call itself is the step's result, unchanged.
\<close>

theorem exec_classifies_wait:
  assumes "\<not> Detached c"
    and "ContainerStart E c (engine p) = (Inr name, s1)"
    and "ContainerWait E name s1 = (w, s2)"
  shows "(w = Inr st \<and> OOMKilled st \<longrightarrow> fst (exec E c p) = Some (OomError (Name c)))
       \<and> (w = Inr st \<and> \<not> OOMKilled st \<and> ExitCode st \<noteq> 0 \<longrightarrow>
            fst (exec E c p) = Some (ExitError (Name c) (ExitCode st)))
       \<and> (w = Inr st \<and> \<not> OOMKilled st \<and> ExitCode st = 0 \<longrightarrow> fst (exec E c p) = None)
       \<and> (w = Inr st \<and> OOMKilled st \<longrightarrow> (\<forall>n k. fst (exec E c p) \<noteq> Some (ExitError n k)))
       \<and> (w = Inl e \<longrightarrow> fst (exec E c p) = Some e)"
  using assms
  by (simp add: exec_def engine_start_def engine_wait_def go_def Let_def)

theorem exec_classifies_wait_witness:
  "fst (exec demo_engine (plain ''oom'') (one_step (plain ''oom''))) = Some (OomError ''oom'')
 \<and> fst (exec demo_engine (plain ''test'') (one_step (plain ''test''))) = Some (ExitError ''test'' 1)
 \<and> fst (exec demo_engine (plain ''build'') (one_step (plain ''build''))) = None
 \<and> fst (exec demo_engine (plain ''lost'') (one_step (plain ''lost'')))
      = Some (EngineError ''connection lost'')"
  using
    exec_classifies_wait [of "plain ''oom''" demo_engine "one_step (plain ''oom'')" "''id-oom''" 1
      "Inr \<lparr>ExitCode = 137, OOMKilled = True\<rparr>" 2 "\<lparr>ExitCode = 137, OOMKilled = True\<rparr>"]
    exec_classifies_wait [of "plain ''test''" demo_engine "one_step (plain ''test'')" "''id-test''" 1
      "Inr \<lparr>ExitCode = 1, OOMKilled = False\<rparr>" 2 "\<lparr>ExitCode = 1, OOMKilled = False\<rparr>"]
    exec_classifies_wait [of "plain ''build''" demo_engine "one_step (plain ''build'')" "''id-build''" 1
      "Inr \<lparr>ExitCode = 0, OOMKilled = False\<rparr>" 2 "\<lparr>ExitCode = 0, OOMKilled = False\<rparr>"]
    exec_classifies_wait [of "plain ''lost''" demo_engine "one_step (plain ''lost'')" "''id-lost''" 1
      "Inl (EngineError ''connection lost'')" 2 _ "EngineError ''connection lost''"]
  by (simp add: demo_engine_def plain_def one_step_def idle_def)

section \<open>Detached steps\<close>

text \<open>
  C5. For a detached step whose container started, \<open>exec\<close> returns success with one
  call made on the engine, the start: the identifier is recorded, the forwarding
  goroutine is started, and there is no wait call. The result is the same whatever the
  engine's wait operation would have returned for that container.
\<close>

theorem exec_detached_returns_at_once:
  assumes "Detached c"
    and "ContainerStart E c (engine p) = (Inr name, s1)"
  shows "exec E c p =
           (None, p\<lparr>containers := containers p @ [name], engine := s1,
                    calls := calls p @ [CStart c (Inr name)],
                    gos := gos p @ [Forward name c]\<rparr>)
       \<and> exec (E\<lparr>ContainerWait := wt\<rparr>) c p = exec E c p"
  using assms
  by (simp add: exec_def engine_start_def go_def Let_def)

theorem exec_detached_returns_at_once_witness:
  "exec demo_engine (sidecar ''db'') (one_step (sidecar ''db''))
     = (None, (one_step (sidecar ''db''))
                \<lparr>containers := [''id-db''], engine := 1,
                 calls := [CStart (sidecar ''db'') (Inr ''id-db'')],
                 gos := [Forward ''id-db'' (sidecar ''db'')]\<rparr>)
 \<and> fst (exec (demo_engine\<lparr>ContainerWait :=
                 \<lambda>name n. (Inr \<lparr>ExitCode = 2, OOMKilled = False\<rparr>, n)\<rparr>)
          (sidecar ''db'') (one_step (sidecar ''db''))) = None"
  using
    exec_detached_returns_at_once
      [where c = "sidecar ''db''" and E = demo_engine and p = "one_step (sidecar ''db'')"
         and name = "''id-db''" and ?s1.0 = 1
         and wt = "\<lambda>name n. (Inr \<lparr>ExitCode = 2, OOMKilled = False\<rparr>, n)"]
  by (simp add: demo_defs)

section \<open>Started containers and teardown\<close>

lemma started_append: "started (xs @ ys) = started xs @ started ys"
  by (induction xs rule: started.induct) simp_all

lemma started_removes: "started (map (\<lambda>(name, r). CRemove name r) xs) = []"
  by (induction xs) auto

text \<open>\<open>Teardown\<close> removes the recorded identifiers in order, whatever each removal returns.\<close>

lemma remove_all_calls:
  "\<exists>rs s. length rs = length ids
     \<and> remove_all E ids p =
         p\<lparr>engine := s, calls := calls p @ map (\<lambda>(name, r). CRemove name r) (zip ids rs)\<rparr>"
proof (induction ids arbitrary: p)
  case Nil
  have "remove_all E [] p = p\<lparr>engine := engine p, calls := calls p @ []\<rparr>" by simp
  then show ?case by (intro exI [of _ "[]"] exI [of _ "engine p"]) simp
next
  case (Cons name ids)
  obtain r s where rm: "ContainerRemove E name (engine p) = (r, s)"
    by (cases "ContainerRemove E name (engine p)")
  let ?p1 = "p\<lparr>engine := s, calls := calls p @ [CRemove name r]\<rparr>"
  from Cons.IH [of ?p1] obtain rs s' where
    len: "length rs = length ids" and
    eq: "remove_all E ids ?p1 =
          ?p1\<lparr>engine := s',
               calls := calls ?p1 @ map (\<lambda>(name, r). CRemove name r) (zip ids rs)\<rparr>"
    by blast
  have "remove_all E (name # ids) p =
          p\<lparr>engine := s',
            calls := calls p @ map (\<lambda>(name, r). CRemove name r) (zip (name # ids) (r # rs))\<rparr>"
    using eq by (simp add: engine_remove_def rm)
  with len show ?case
    by (intro exI [of _ "r # rs"] exI [of _ s']) simp
qed

lemma Teardown_calls:
  assumes "Teardown E p = Some p'"
  shows "\<exists>rs. length rs = length (containers p)
       \<and> calls p' = calls p @ map (\<lambda>(name, r). CRemove name r) (zip (containers p) rs)
       \<and> containers p' = containers p \<and> pipe p' = pipe p"
proof -
  from remove_all_calls [of "containers p" E p] obtain rs s where
    len: "length rs = length (containers p)" and
    eq: "remove_all E (containers p) p =
          p\<lparr>engine := s,
            calls := calls p @ map (\<lambda>(name, r). CRemove name r) (zip (containers p) rs)\<rparr>"
    by blast
  from assms have
    "calls p' = calls p @ map (\<lambda>(name, r). CRemove name r) (zip (containers p) rs)
     \<and> containers p' = containers p \<and> pipe p' = pipe p"
    by (auto simp: Teardown_def eq Let_def close_chan_def split: if_splits)
  with len show ?thesis by blast
qed

text \<open>
  Two facts that every operation keeps: the recorded identifiers are the ones the
  successful start calls returned, and the output channel is as open as it was.
\<close>

lemma exec_keeps:
  "exec E c p = (r, p1) \<Longrightarrow> containers p = started (calls p) \<Longrightarrow>
   containers p1 = started (calls p1)"
  by (auto simp: exec_def engine_start_def engine_wait_def go_def Let_def started_append
           split: prod.splits sum.splits if_splits)

lemma step_keeps:
  "containers (step p) = containers p \<and> calls (step p) = calls p \<and> pipe (step p) = pipe p"
  by (simp add: step_def go_def)

lemma forward_keeps:
  assumes "forward E name c p = Some p'"
  shows "(containers p = started (calls p) \<longrightarrow> containers p' = started (calls p'))
       \<and> is_closed (pipe p') = is_closed (pipe p)"
proof (cases "ContainerLogs E name (engine p)")
  case (Pair r s)
  show ?thesis
  proof (cases r)
    case (Inl rerr)
    with assms Pair show ?thesis
      by (auto simp: forward_def engine_logs_def started_append)
  next
    case (Inr rc)
    let ?p1 = "p\<lparr>engine := s, calls := calls p @ [CLogs name (Inr rc)]\<rparr>"
    from assms Pair Inr obtain ch where
      sc: "scan_loop c (opened rc) 0 (scanned rc) (pipe p) = Some ch" and
      p': "p' = ?p1\<lparr>pipe := ch\<rparr>"
      by (auto simp: forward_def engine_logs_def split: option.splits)
    from scan_loop_flag [OF sc] p' show ?thesis
      by (simp add: started_append)
  qed
qed

lemma run_keeps:
  assumes "run E t p = Some p'"
  shows "(containers p = started (calls p) \<longrightarrow> containers p' = started (calls p'))
       \<and> is_closed (pipe p') = is_closed (pipe p)"
proof (cases t)
  case ExecBody
  from assms ExecBody obtain el where el: "deref (elems p) (head p) = Some el"
    by (cases "deref (elems p) (head p)") (simp_all add: exec_body_def)
  obtain e p1 where ex: "exec E (Container el) p = (e, p1)"
    by (cases "exec E (Container el) p")
  from assms ExecBody el ex
  have p': "p' = step (if e \<noteq> None then p1\<lparr>err := e\<rparr> else p1)"
    by (simp add: exec_body_def)
  from exec_keeps [OF ex] exec_frame [OF ex] show ?thesis
    by (simp add: p' step_keeps)
next
  case (SendDone e)
  with assms show ?thesis
    by (auto simp: send_done_def split: option.splits)
next
  case MoveNext
  with assms show ?thesis
    by (auto simp: move_next_def split: option.splits)
next
  case (Forward name c)
  with assms forward_keeps [of E name c p p'] show ?thesis by simp
qed

lemma act_keeps:
  assumes "act E a p = Some p'"
  shows "(containers p = started (calls p) \<longrightarrow> containers p' = started (calls p'))
       \<and> is_closed (pipe p') = is_closed (pipe p)"
proof (cases a)
  case DoTeardown
  with assms have "Teardown E p = Some p'" by simp
  from Teardown_calls [OF this] show ?thesis
    by (auto simp: started_append started_removes)
next
  case (Sched i)
  show ?thesis
  proof (cases "i < length (gos p)")
    case True
    with assms Sched
    have "run E (gos p ! i) (p\<lparr>gos := take i (gos p) @ drop (Suc i) (gos p)\<rparr>) = Some p'"
      by (simp add: run_go_def)
    from run_keeps [OF this] show ?thesis by simp
  next
    case False
    with assms Sched show ?thesis by (simp add: run_go_def)
  qed
qed (use assms in \<open>auto simp: Exec_def Skip_def Stop_def step_def go_def split: if_splits\<close>)

lemma drive_keeps:
  "drive E as p0 = Some p \<Longrightarrow>
   (containers p0 = started (calls p0) \<longrightarrow> containers p = started (calls p))
   \<and> is_closed (pipe p) = is_closed (pipe p0)"
proof (induction as arbitrary: p0)
  case Nil
  then show ?case by simp
next
  case (Cons a as)
  from Cons.prems obtain p1 where a: "act E a p0 = Some p1" and d: "drive E as p1 = Some p"
    by (auto split: option.splits)
  from Cons.IH [OF d] act_keeps [OF a] show ?case by simp
qed

text \<open>
  C6. Whatever has been done to a pipeline that started with the two lists in step,
  its list of containers is the list of identifiers that the successful start calls
  returned, in the order of the calls. A start that fails is the step's result at once:
  only the call is made, no identifier is recorded and no forwarding goroutine is
  started. A start that succeeds has its identifier appended whatever the step's result
  is. The identifiers that \<open>Teardown\<close> passes to removal are that list, in its order.
\<close>

theorem containers_are_the_started_identifiers:
  assumes "drive E as p0 = Some p" and "containers p0 = started (calls p0)"
  shows "containers p = started (calls p)
       \<and> (ContainerStart E c (engine p) = (Inl e, s1) \<longrightarrow>
            exec E c p = (Some e, p\<lparr>engine := s1, calls := calls p @ [CStart c (Inl e)]\<rparr>))
       \<and> (ContainerStart E c (engine p) = (Inr name, s1) \<longrightarrow>
            containers (snd (exec E c p)) = containers p @ [name])
       \<and> (Teardown E p = Some p' \<longrightarrow>
            (\<exists>rs. length rs = length (started (calls p))
               \<and> calls p' =
                   calls p @ map (\<lambda>(name, r). CRemove name r) (zip (started (calls p)) rs)))"
proof -
  have inv: "containers p = started (calls p)"
    using drive_keeps [OF assms(1)] assms(2) by simp
  have fail: "ContainerStart E c (engine p) = (Inl e, s1) \<longrightarrow>
        exec E c p = (Some e, p\<lparr>engine := s1, calls := calls p @ [CStart c (Inl e)]\<rparr>)"
    by (simp add: exec_def engine_start_def)
  have ok: "ContainerStart E c (engine p) = (Inr name, s1) \<longrightarrow>
        containers (snd (exec E c p)) = containers p @ [name]"
    by (auto simp: exec_def engine_start_def engine_wait_def go_def Let_def
             split: prod.splits sum.splits)
  have td: "Teardown E p = Some p' \<longrightarrow>
        (\<exists>rs. length rs = length (started (calls p))
           \<and> calls p' =
               calls p @ map (\<lambda>(name, r). CRemove name r) (zip (started (calls p)) rs))"
    using Teardown_calls [of E p p'] inv by auto
  from inv fail ok td show ?thesis by blast
qed

theorem containers_are_the_started_identifiers_witness:
  "containers ran_both = [''id-db'', ''id-test'']
 \<and> started (calls ran_both) = [''id-db'', ''id-test'']
 \<and> exec demo_engine (unstartable ''lint'') ran_both
     = (Some (EngineError ''no such image''),
        ran_both\<lparr>engine := 4,
                 calls := calls ran_both
                   @ [CStart (unstartable ''lint'') (Inl (EngineError ''no such image''))]\<rparr>)
 \<and> containers (snd (exec demo_engine (plain ''oom'') ran_both))
     = [''id-db'', ''id-test'', ''id-oom'']
 \<and> map_option calls (Teardown demo_engine ran_both)
     = Some (calls ran_both
             @ [CRemove ''id-db'' None, CRemove ''id-test'' (Some (EngineError ''container busy''))])"
proof -
  let ?td = "ran_both\<lparr>engine := 5,
                calls := calls ran_both @ [CRemove ''id-db'' None,
                           CRemove ''id-test'' (Some (EngineError ''container busy''))],
                next_chan := \<lparr>sent = [None], is_closed = True\<rparr>,
                done_chan := \<lparr>sent = [None], is_closed = True\<rparr>\<rparr>"
  have h: "containers (two_steps (sidecar ''db'') (plain ''test''))
             = started (calls (two_steps (sidecar ''db'') (plain ''test'')))"
    by (simp add: demo_defs)
  have s1: "ContainerStart demo_engine (unstartable ''lint'') 3
              = (Inl (EngineError ''no such image''), 4)"
    by (simp add: demo_engine_def unstartable_def)
  have s2: "ContainerStart demo_engine (plain ''oom'') 3 = (Inr ''id-oom'', 4)"
    by (simp add: demo_engine_def plain_def)
  have td: "Teardown demo_engine ran_both = Some ?td"
    by (simp add: Teardown_def engine_remove_def close_chan_def ran_both_fields demo_engine_def)
  note t = containers_are_the_started_identifiers [OF ran_both_run h]
  from t [where c = "unstartable ''lint''" and e = "EngineError ''no such image''"
            and ?s1.0 = 4 and name = "''id-lint''" and p' = ?td]
       t [where c = "plain ''oom''" and e = "EngineError ''no such image''"
            and ?s1.0 = 4 and name = "''id-oom''" and p' = ?td]
  show ?thesis
    by (simp add: s1 s2 td ran_both_fields)
qed

text \<open>
  C7. \<open>Teardown\<close> on a pipeline whose signals are still open: it calls remove once for
  every recorded identifier, in order and whatever the removals return, then the next
  and the done channel are closed, with nothing more delivered on them; the stored error
  is as it was and so is the output channel. No operation of the pipeline ever closes
  the output channel.
\<close>

theorem Teardown_removes_all_and_closes:
  assumes "\<not> is_closed (next_chan p)" and "\<not> is_closed (done_chan p)"
  shows "(\<exists>p' rs. Teardown E p = Some p'
           \<and> length rs = length (containers p)
           \<and> calls p' = calls p @ map (\<lambda>(name, r). CRemove name r) (zip (containers p) rs)
           \<and> next_chan p' = (next_chan p)\<lparr>is_closed := True\<rparr>
           \<and> done_chan p' = (done_chan p)\<lparr>is_closed := True\<rparr>
           \<and> pipe p' = pipe p
           \<and> err p' = err p)
       \<and> (drive E as p = Some q \<longrightarrow> is_closed (pipe q) = is_closed (pipe p))"
proof -
  from remove_all_calls [of "containers p" E p] obtain rs s where
    len: "length rs = length (containers p)" and
    eq: "remove_all E (containers p) p =
          p\<lparr>engine := s,
            calls := calls p @ map (\<lambda>(name, r). CRemove name r) (zip (containers p) rs)\<rparr>"
    by blast
  have "\<exists>p' rs. Teardown E p = Some p'
           \<and> length rs = length (containers p)
           \<and> calls p' = calls p @ map (\<lambda>(name, r). CRemove name r) (zip (containers p) rs)
           \<and> next_chan p' = (next_chan p)\<lparr>is_closed := True\<rparr>
           \<and> done_chan p' = (done_chan p)\<lparr>is_closed := True\<rparr>
           \<and> pipe p' = pipe p
           \<and> err p' = err p"
    using assms len by (simp add: Teardown_def eq close_chan_def) blast
  then show ?thesis
    using drive_keeps [of E as p q] by blast
qed

theorem Teardown_removes_all_and_closes_witness:
  "map_option calls (Teardown demo_engine ran_both)
     = Some (calls ran_both
             @ [CRemove ''id-db'' None, CRemove ''id-test'' (Some (EngineError ''container busy''))])
 \<and> map_option next_chan (Teardown demo_engine ran_both)
     = Some \<lparr>sent = [None], is_closed = True\<rparr>
 \<and> map_option done_chan (Teardown demo_engine ran_both)
     = Some \<lparr>sent = [None], is_closed = True\<rparr>
 \<and> map_option pipe (Teardown demo_engine ran_both) = Some \<lparr>sent = [], is_closed = False\<rparr>
 \<and> map_option err (Teardown demo_engine ran_both) = Some (Some (ExitError ''test'' 1))
 \<and> map_option (is_closed \<circ> pipe) (drive demo_engine [DoTeardown] ran_both) = Some False"
proof -
  have h1: "\<not> is_closed (next_chan ran_both)" and h2: "\<not> is_closed (done_chan ran_both)"
    by (simp_all add: ran_both_fields)
  have td: "Teardown demo_engine ran_both
      = Some (ran_both\<lparr>engine := 5,
                calls := calls ran_both @ [CRemove ''id-db'' None,
                           CRemove ''id-test'' (Some (EngineError ''container busy''))],
                next_chan := \<lparr>sent = [None], is_closed = True\<rparr>,
                done_chan := \<lparr>sent = [None], is_closed = True\<rparr>\<rparr>)"
    by (simp add: Teardown_def engine_remove_def close_chan_def ran_both_fields demo_engine_def)
  from Teardown_removes_all_and_closes
         [OF h1 h2, where E = demo_engine and as = "[DoTeardown]"
            and q = "the (Teardown demo_engine ran_both)"]
  show ?thesis
    by (simp add: td ran_both_fields)
qed

section \<open>A log stream that does not open\<close>

text \<open>
  C8. When the step's log stream cannot be opened, the forwarding goroutine ends at
  once: the call on the engine is all that happened, so no record is sent, the stored
  error and the signals are as they were, and nothing panics. The same holds for a
  stream that opens and yields no line. And the result of \<open>exec\<close> is the same whatever
  the engine's log operation does.
\<close>

theorem forward_open_failure_is_swallowed:
  "(ContainerLogs E name (engine p) = (Inl rerr, s1) \<longrightarrow>
      forward E name c p = Some (p\<lparr>engine := s1, calls := calls p @ [CLogs name (Inl rerr)]\<rparr>))
 \<and> (ContainerLogs E name (engine p) = (Inr rc, s1) \<and> scanned rc = [] \<longrightarrow>
      forward E name c p = Some (p\<lparr>engine := s1, calls := calls p @ [CLogs name (Inr rc)]\<rparr>))
 \<and> exec (E\<lparr>ContainerLogs := lg\<rparr>) d q = exec E d q"
  by (simp add: forward_def engine_logs_def exec_ignores_logs)

theorem forward_open_failure_is_swallowed_witness:
  "forward demo_engine ''id-quiet'' (plain ''quiet'') (one_step (plain ''quiet''))
     = Some ((one_step (plain ''quiet''))
               \<lparr>engine := 1, calls := [CLogs ''id-quiet'' (Inl (EngineError ''no log stream''))]\<rparr>)
 \<and> forward demo_engine ''id-silent'' (plain ''silent'') (one_step (plain ''silent''))
     = Some ((one_step (plain ''silent''))
               \<lparr>engine := 1,
                calls := [CLogs ''id-silent''
                           (Inr \<lparr>begun = 0, opened = 1000000000, scanned = []\<rparr>)]\<rparr>)
 \<and> fst (exec (demo_engine\<lparr>ContainerLogs := \<lambda>name n. (Inl (EngineError ''no log stream''), n)\<rparr>)
          (plain ''silent'') (one_step (plain ''silent''))) = None"
  using
    forward_open_failure_is_swallowed
      [where E = demo_engine and name = "''id-quiet''" and p = "one_step (plain ''quiet'')"
         and rerr = "EngineError ''no log stream''" and ?s1.0 = 1 and c = "plain ''quiet''"
         and lg = "\<lambda>name n. (Inl (EngineError ''no log stream''), n)"
         and d = "plain ''silent''" and q = "one_step (plain ''silent'')"]
    forward_open_failure_is_swallowed
      [where E = demo_engine and name = "''id-silent''" and p = "one_step (plain ''silent'')"
         and rc = "\<lparr>begun = 0, opened = 1000000000, scanned = []\<rparr>" and ?s1.0 = 1
         and c = "plain ''silent''"]
  by (simp add: demo_defs exec_def engine_start_def engine_wait_def go_def)

section \<open>Stop\<close>

text \<open>
  C9. \<open>Stop\<close> starts one goroutine and changes nothing else, in any state of the
  pipeline and whatever other goroutines are in flight: the head, the stored error, the
  containers, the calls made on the engine and the signals are as they were. When that
  goroutine runs, in whatever state \<open>q\<close> the pipeline then is with its done channel not
  yet closed by \<open>Teardown\<close>, it delivers \<open>ErrTerm\<close> on the done signal and that is all.
\<close>

theorem Stop_only_delivers_ErrTerm:
  "Stop p = p\<lparr>gos := gos p @ [SendDone (Some ErrTerm)]\<rparr>
 \<and> (i < length (gos q) \<and> gos q ! i = SendDone (Some ErrTerm) \<and> \<not> is_closed (done_chan q) \<longrightarrow>
      run_go E i q =
        Some (q\<lparr>gos := take i (gos q) @ drop (Suc i) (gos q),
                done_chan := (done_chan q)\<lparr>sent := sent (done_chan q) @ [Some ErrTerm]\<rparr>\<rparr>))"
  by (simp add: Stop_def go_def run_go_task send_done_open)

theorem Stop_only_delivers_ErrTerm_witness:
  "Stop (Exec (one_step (plain ''build'')))
     = (one_step (plain ''build''))\<lparr>gos := [ExecBody, SendDone (Some ErrTerm)]\<rparr>
 \<and> run_go demo_engine 1 (Stop (Exec (one_step (plain ''build''))))
     = Some ((one_step (plain ''build''))
               \<lparr>gos := [ExecBody], done_chan := \<lparr>sent = [Some ErrTerm], is_closed = False\<rparr>\<rparr>)"
  using
    Stop_only_delivers_ErrTerm
      [where p = "Exec (one_step (plain ''build''))"
         and q = "Stop (Exec (one_step (plain ''build'')))" and i = 1 and E = demo_engine]
  by (simp add: demo_defs Stop_def Exec_def go_def)

section \<open>The stored error\<close>

text \<open>
  C10. When the goroutine of \<open>Exec\<close> runs on a pipeline whose head is a step: if the
  step resolves with success, the stored error is what it was, so an earlier failure is
  still what \<open>Err\<close> returns; if the step resolves with a failure, the stored error is
  that failure, whatever failure was stored before.
\<close>

theorem err_kept_on_success_replaced_on_failure:
  assumes "deref (elems p) (head p) = Some el"
  shows "(fst (exec E (Container el) p) = None \<longrightarrow>
            (\<exists>p'. exec_body E p = Some p' \<and> Err p' = Err p))
       \<and> (fst (exec E (Container el) p) = Some e \<longrightarrow>
            (\<exists>p'. exec_body E p = Some p' \<and> Err p' = Some e))"
proof -
  obtain r p1 where ex: "exec E (Container el) p = (r, p1)"
    by (cases "exec E (Container el) p")
  from exec_frame [OF ex] have "err p1 = err p" by simp
  then show ?thesis
    using assms ex by (simp add: exec_body_def Err_def step_def go_def)
qed

theorem err_kept_on_success_replaced_on_failure_witness:
  "map_option Err
     (exec_body demo_engine ((one_step (plain ''build''))\<lparr>err := Some (OomError ''earlier'')\<rparr>))
     = Some (Some (OomError ''earlier''))
 \<and> map_option Err
     (exec_body demo_engine ((one_step (plain ''test''))\<lparr>err := Some (OomError ''earlier'')\<rparr>))
     = Some (Some (ExitError ''test'' 1))"
  using
    err_kept_on_success_replaced_on_failure
      [where p = "(one_step (plain ''build''))\<lparr>err := Some (OomError ''earlier'')\<rparr>"
         and el = "\<lparr>Container = plain ''build'', next_el = None\<rparr>" and E = demo_engine]
    err_kept_on_success_replaced_on_failure
      [where p = "(one_step (plain ''test''))\<lparr>err := Some (OomError ''earlier'')\<rparr>"
         and el = "\<lparr>Container = plain ''test'', next_el = None\<rparr>" and E = demo_engine
         and e = "ExitError ''test'' 1"]
  by (simp add: demo_defs op_defs)

end
